theory Spec2Isabelle
  imports Complex_Main "HOL-Library.Word"
begin

unbundle bit_operations_syntax

section \<open>JavaScript numbers and typed arrays\<close>

text \<open>
  The samples of a \<open>Float32Array\<close> are finite numbers, the two infinities or NaN.
  A finite sample is modelled by the real number it denotes. Every arithmetic step of
  the two codec helpers is exact on such a value: a 24-bit significand times a 16-bit
  constant fits a double, and a 16-bit integer divided by \<open>2 ^ 15\<close> fits a float.
\<close>

datatype number = Num real | PosInfinity | NegInfinity | NaN

fun Math_min :: "number \<Rightarrow> number \<Rightarrow> number" where
  "Math_min NaN y = NaN"
| "Math_min x NaN = NaN"
| "Math_min NegInfinity y = NegInfinity"
| "Math_min x NegInfinity = NegInfinity"
| "Math_min PosInfinity y = y"
| "Math_min x PosInfinity = x"
| "Math_min (Num a) (Num b) = Num (min a b)"

fun Math_max :: "number \<Rightarrow> number \<Rightarrow> number" where
  "Math_max NaN y = NaN"
| "Math_max x NaN = NaN"
| "Math_max PosInfinity y = PosInfinity"
| "Math_max x PosInfinity = PosInfinity"
| "Math_max NegInfinity y = y"
| "Math_max x NegInfinity = x"
| "Math_max (Num a) (Num b) = Num (max a b)"

text \<open>The comparison \<open>s < 0\<close>: false on NaN.\<close>

fun less_zero :: "number \<Rightarrow> bool" where
  "less_zero (Num a) = (a < 0)"
| "less_zero NegInfinity = True"
| "less_zero PosInfinity = False"
| "less_zero NaN = False"

text \<open>The product \<open>s * k\<close> with a positive finite constant \<open>k\<close> (\<open>0x8000\<close>, \<open>0x7FFF\<close>).\<close>

fun times_const :: "number \<Rightarrow> real \<Rightarrow> number" where
  "times_const (Num a) k = Num (a * k)"
| "times_const PosInfinity k = PosInfinity"
| "times_const NegInfinity k = NegInfinity"
| "times_const NaN k = NaN"

text \<open>Truncation towards zero, the first step of every integer conversion.\<close>

definition trunc :: "real \<Rightarrow> int" where
  "trunc x = (if x < 0 then \<lceil>x\<rceil> else \<lfloor>x\<rfloor>)"

text \<open>
  Storing into an \<open>Int16Array\<close> element converts with ToInt16: NaN and the infinities
  give 0, a finite number is truncated and wrapped modulo \<open>2 ^ 16\<close>.
\<close>

fun ToInt16 :: "number \<Rightarrow> 16 word" where
  "ToInt16 (Num a) = word_of_int (trunc a)"
| "ToInt16 PosInfinity = 0"
| "ToInt16 NegInfinity = 0"
| "ToInt16 NaN = 0"

type_synonym byte = "8 word"

text \<open>
  \<open>new Uint8Array(pcm16.buffer)\<close>: the bytes behind an \<open>Int16Array\<close>, low byte first
  (typed arrays use the byte order of the platform, little-endian on every platform
  that runs a browser).
\<close>

definition int16_bytes :: "16 word \<Rightarrow> byte list" where
  "int16_bytes w = [ucast w, ucast (drop_bit 8 w)]"

definition Uint8Array_of_buffer :: "16 word list \<Rightarrow> byte list" where
  "Uint8Array_of_buffer ws = concat (map int16_bytes ws)"

datatype exn = InvalidCharacterError | RangeError | NotSupportedError

definition int16_of_bytes :: "byte \<Rightarrow> byte \<Rightarrow> 16 word" where
  "int16_of_bytes lo hi = push_bit 8 (ucast hi) OR ucast lo"

fun int16_elements :: "byte list \<Rightarrow> 16 word list" where
  "int16_elements (lo # hi # bs) = int16_of_bytes lo hi # int16_elements bs"
| "int16_elements bs = []"

text \<open>
  \<open>new Int16Array(bytes.buffer)\<close> throws a RangeError when the byte length of the buffer
  is not a multiple of 2.
\<close>

definition Int16Array_of_buffer :: "byte list \<Rightarrow> exn + 16 word list" where
  "Int16Array_of_buffer bs =
     (if length bs mod 2 \<noteq> 0 then Inl RangeError else Inr (int16_elements bs))"

section \<open>The sample codec\<close>

text \<open>
  \<^verbatim>\<open>
  const floatTo16BitPCM = (float32Arr: Float32Array) => {
      const int16Arr = new Int16Array(float32Arr.length);
      for (let i = 0; i < float32Arr.length; i++) {
          const s = Math.max(-1, Math.min(1, float32Arr[i]));
          int16Arr[i] = s < 0 ? s * 0x8000 : s * 0x7FFF;
      }
      return int16Arr;
  };
  \<close>
\<close>

definition clamp_sample :: "number \<Rightarrow> number" where
  "clamp_sample x = Math_max (Num (- 1)) (Math_min (Num 1) x)"

definition encode_sample :: "number \<Rightarrow> 16 word" where
  "encode_sample x =
     (let s = clamp_sample x
      in ToInt16 (if less_zero s then times_const s 32768 else times_const s 32767))"

definition floatTo16BitPCM :: "number list \<Rightarrow> 16 word list" where
  "floatTo16BitPCM float32Arr = map encode_sample float32Arr"

text \<open>The encoder of the specification: the samples as bytes on the wire.\<close>

definition encodePCM16 :: "number list \<Rightarrow> byte list" where
  "encodePCM16 samples = Uint8Array_of_buffer (floatTo16BitPCM samples)"

text \<open>
  The PCM step of \<open>decodeAudio\<close>:
  \<^verbatim>\<open>
  const pcm16 = new Int16Array(bytes.buffer);
  const float32 = new Float32Array(pcm16.length);
  for(let i=0; i<pcm16.length; i++) float32[i] = pcm16[i] / 32768.0;
  \<close>
\<close>

definition decodePCM16 :: "byte list \<Rightarrow> exn + real list" where
  "decodePCM16 bytes =
     (case Int16Array_of_buffer bytes of
        Inl e \<Rightarrow> Inl e
      | Inr pcm16 \<Rightarrow> Inr (map (\<lambda>w. real_of_int (sint w) / 32768) pcm16))"

section \<open>The transport text encoding\<close>

text \<open>
  \<open>btoa\<close> and \<open>atob\<close> are functions of the platform. They are modelled after their
  specification (base64 with padding; decoding is forgiving: ASCII whitespace is
  skipped and the padding may be left out). A string holds one \<open>char\<close> per byte.
\<close>

definition base64_alphabet :: string where
  "base64_alphabet = ''ABCDEFGHIJKLMNOPQRSTUVWXYZabcdefghijklmnopqrstuvwxyz0123456789+/''"

definition b64_char :: "nat \<Rightarrow> char" where
  "b64_char n = base64_alphabet ! (n mod 64)"

definition b64_index :: "char \<Rightarrow> nat option" where
  "b64_index c =
     (let n = (of_char c :: nat)
      in if 65 \<le> n \<and> n \<le> 90 then Some (n - 65)
         else if 97 \<le> n \<and> n \<le> 122 then Some (n - 71)
         else if 48 \<le> n \<and> n \<le> 57 then Some (n + 4)
         else if n = 43 then Some 62
         else if n = 47 then Some 63
         else None)"

fun btoa_groups :: "nat list \<Rightarrow> string" where
  "btoa_groups (a # b # c # bs) =
     (let n = (a * 256 + b) * 256 + c
      in b64_char (n div 262144) # b64_char (n div 4096 mod 64) #
         b64_char (n div 64 mod 64) # b64_char (n mod 64) # btoa_groups bs)"
| "btoa_groups [a, b] =
     (let n = (a * 256 + b) * 4
      in [b64_char (n div 4096), b64_char (n div 64 mod 64), b64_char (n mod 64), CHR ''=''])"
| "btoa_groups [a] =
     (let n = a * 16 in [b64_char (n div 64), b64_char (n mod 64), CHR ''='', CHR ''=''])"
| "btoa_groups [] = []"

definition btoa :: "string \<Rightarrow> string" where
  "btoa binaryString = btoa_groups (map of_char binaryString)"

text \<open>\<open>String.fromCharCode(...bytes)\<close>: one character per byte.\<close>

definition String_fromCharCode :: "byte list \<Rightarrow> string" where
  "String_fromCharCode bytes = map (\<lambda>b. char_of (unat b)) bytes"

definition ascii_whitespace :: "char \<Rightarrow> bool" where
  "ascii_whitespace c = ((of_char c :: nat) \<in> {9, 10, 12, 13, 32})"

definition strip_padding :: "string \<Rightarrow> string" where
  "strip_padding d =
     (if length d mod 4 = 0 \<and> d \<noteq> [] \<and> last d = CHR ''=''
      then (let d1 = butlast d
            in if d1 \<noteq> [] \<and> last d1 = CHR ''='' then butlast d1 else d1)
      else d)"

fun atob_groups :: "nat list \<Rightarrow> nat list" where
  "atob_groups (a # b # c # d # vs) =
     (let n = ((a * 64 + b) * 64 + c) * 64 + d
      in n div 65536 # n div 256 mod 256 # n mod 256 # atob_groups vs)"
| "atob_groups [a, b, c] =
     (let n = ((a * 64 + b) * 64 + c) div 4 in [n div 256, n mod 256])"
| "atob_groups [a, b] = [(a * 64 + b) div 16]"
| "atob_groups vs = []"

definition atob :: "string \<Rightarrow> exn + string" where
  "atob data =
     (let d = strip_padding (filter (\<lambda>c. \<not> ascii_whitespace c) data)
      in if length d mod 4 = 1 then Inl InvalidCharacterError
         else (case those (map b64_index d) of
                 None \<Rightarrow> Inl InvalidCharacterError
               | Some vs \<Rightarrow> Inr (map char_of (atob_groups vs))))"

section \<open>Audio buffers\<close>

record AudioBuffer =
  channelData :: "real list"
  sampleRate :: nat

definition duration :: "AudioBuffer \<Rightarrow> real" where
  "duration buffer = real (length (channelData buffer)) / real (sampleRate buffer)"

text \<open>
  \<open>ctx.createBuffer(1, length, sampleRate)\<close>: a silent buffer of one channel; the
  platform throws a NotSupportedError for a length of zero frames.
\<close>

definition createBuffer :: "nat \<Rightarrow> nat \<Rightarrow> exn + AudioBuffer" where
  "createBuffer len rate =
     (if len = 0 then Inl NotSupportedError
      else Inr \<lparr>channelData = replicate len 0, sampleRate = rate\<rparr>)"

text \<open>
  \<^verbatim>\<open>
  const decodeAudio = async (base64: string, ctx: AudioContext) => {
      const binaryString = atob(base64);
      const bytes = new Uint8Array(binaryString.length);
      for(let i=0; i<binaryString.length; i++) bytes[i] = binaryString.charCodeAt(i);
      const pcm16 = new Int16Array(bytes.buffer);
      const float32 = new Float32Array(pcm16.length);
      for(let i=0; i<pcm16.length; i++) float32[i] = pcm16[i] / 32768.0;
      const buffer = ctx.createBuffer(1, float32.length, 24000);
      buffer.copyToChannel(float32, 0);
      return buffer;
  };
  \<close>
  An exception thrown inside rejects the promise that the function returns.
\<close>

definition decodeAudio :: "string \<Rightarrow> exn + AudioBuffer" where
  "decodeAudio base64 =
     (case atob base64 of
        Inl e \<Rightarrow> Inl e
      | Inr binaryString \<Rightarrow>
          (let bytes = map of_char binaryString
           in case decodePCM16 bytes of
                Inl e \<Rightarrow> Inl e
              | Inr float32 \<Rightarrow>
                  (case createBuffer (length float32) 24000 of
                     Inl e \<Rightarrow> Inl e
                   | Inr buffer \<Rightarrow> Inr (buffer\<lparr>channelData := float32\<rparr>))))"

section \<open>The live session\<close>

text \<open>
  The component \<open>LiveSession\<close> keeps its state in a React state variable (\<open>status\<close>),
  in two variables of the effect closure (\<open>mounted\<close>, \<open>sessionPromise\<close>) and in four refs.
  The model adds what the platform holds for it: whether the handler
  \<open>processor.onaudioprocess\<close> is installed, and how many source nodes
  \<open>createBufferSource\<close> has made (a node is identified by its number).
\<close>

text \<open>
  The four values of \<open>status\<close>: \<open>'connecting'\<close>, \<open>'connected'\<close>, \<open>'error'\<close>, \<open>'closed'\<close>.
\<close>

datatype status = Connecting | Connected | Error | Closed

text \<open>\<open>ctx_closed\<close>: \<open>close()\<close> has been called on the context.\<close>

datatype AudioContextState = ctx_running | ctx_closed

record LiveSession =
  context_prop :: "string option"
  status :: status
  mounted :: bool
  sessionPromise :: bool
  inputContextRef :: "AudioContextState option"
  outputContextRef :: "AudioContextState option"
  nextStartTimeRef :: real
  sourcesRef :: "nat list"
  onaudioprocess :: bool
  sourceCount :: nat

record LiveConnectParameters =
  model :: string
  voiceName :: string
  systemInstruction :: string

text \<open>
  The calls that reach a collaborator: the capture source, the output sink, the
  transport. \<open>SessionClose\<close> (\<open>session.close()\<close>) and \<open>TrackStop\<close> (\<open>track.stop()\<close> on
  the captured stream) are the operations that release the transport and the
  microphone. Logging to the console is not recorded.
\<close>

datatype call =
    GetUserMedia
  | LiveConnect LiveConnectParameters
  | NodesConnect
  | SendRealtimeInput string string
  | SourceStart nat AudioBuffer real
  | SourceStop nat
  | InputContextClose
  | OutputContextClose
  | SessionClose
  | TrackStop

text \<open>
  The first part of the message that \<open>onmessage\<close> reads:
  \<open>msg.serverContent?.modelTurn?.parts?.[0]?.inlineData?.data\<close> and
  \<open>msg.serverContent?.modelTurn?.parts?.[0]?.text\<close>.
\<close>

record LiveServerMessage =
  inlineData :: "string option"
  text_part :: "string option"

text \<open>
  What can happen to a mounted component. \<open>OnMessage\<close> carries the reading of
  \<open>ctx.currentTime\<close> at the moment \<open>playAudio\<close> runs; \<open>AudioProcess\<close> carries
  \<open>e.inputBuffer.getChannelData(0)\<close>; \<open>SourceEnded\<close> is the \<open>ended\<close> event of a
  source node; \<open>Cleanup\<close> is the function the effect returns.
\<close>

datatype event =
    GetUserMediaResolved
  | GetUserMediaRejected
  | OnOpen
  | OnMessage LiveServerMessage real
  | OnClose
  | OnError
  | AudioProcess "number list"
  | SourceEnded nat
  | Cleanup

text \<open>
  \<^verbatim>\<open>
  const instruction = `You are VOID, ... but helpful.
                  
                  CONTEXT OF CURRENT SESSION:
                  ${context || "The user is drifting in the void with no specific active note."}
                  
                  Use this context to answer questions or generate ideas if asked.`;
  \<close>
  The lines of the template are indented by 16 spaces.
\<close>

definition indent :: string where
  "indent = CHR 0x0A # ''                ''"

definition instruction :: "string option \<Rightarrow> string" where
  "instruction ctx =
     ''You are VOID, the digital abyss that stares back. The user is screaming into you. Be calm, infinite, and slightly cryptic but helpful.''
     @ indent @ indent @ ''CONTEXT OF CURRENT SESSION:'' @ indent
     @ (case ctx of
          None \<Rightarrow> ''The user is drifting in the void with no specific active note.''
        | Some c \<Rightarrow>
            if c = [] then ''The user is drifting in the void with no specific active note.''
            else c)
     @ indent @ indent
     @ ''Use this context to answer questions or generate ideas if asked.''"

text \<open>
  The synchronous part of \<open>init\<close>, up to \<open>await getUserMedia\<close>: both audio contexts
  exist and the refs hold them.
\<close>

definition init :: "string option \<Rightarrow> LiveSession \<times> call list" where
  "init ctx =
     (\<lparr>context_prop = ctx, status = Connecting, mounted = True, sessionPromise = False,
       inputContextRef = Some ctx_running, outputContextRef = Some ctx_running,
       nextStartTimeRef = 0, sourcesRef = [], onaudioprocess = False, sourceCount = 0\<rparr>,
      [GetUserMedia])"

text \<open>
  \<^verbatim>\<open>
  const playAudio = (buffer: AudioBuffer, ctx: AudioContext) => {
      const source = ctx.createBufferSource();
      source.buffer = buffer;
      source.connect(ctx.destination);
      const now = ctx.currentTime;
      const start = Math.max(now, nextStartTimeRef.current);
      source.start(start);
      nextStartTimeRef.current = start + buffer.duration;
      sourcesRef.current.add(source);
      source.onended = () => sourcesRef.current.delete(source);
  };
  \<close>
\<close>

definition playAudio :: "AudioBuffer \<Rightarrow> real \<Rightarrow> LiveSession \<Rightarrow> LiveSession \<times> call list" where
  "playAudio buffer now s =
     (let source = sourceCount s;
          start = max now (nextStartTimeRef s)
      in (s\<lparr>nextStartTimeRef := start + duration buffer,
             sourcesRef := sourcesRef s @ [source],
             sourceCount := Suc source\<rparr>,
          [SourceStart source buffer start]))"

definition close_context :: "AudioContextState option \<Rightarrow> AudioContextState option" where
  "close_context ref = (case ref of None \<Rightarrow> None | Some c \<Rightarrow> Some ctx_closed)"

definition close_call :: "AudioContextState option \<Rightarrow> call \<Rightarrow> call list" where
  "close_call ref c = (case ref of None \<Rightarrow> [] | Some x \<Rightarrow> [c])"

text \<open>
  One event. The handlers, in the order of the equations below:
  \<^verbatim>\<open>
  // after: const stream = await navigator.mediaDevices.getUserMedia({ audio: true });
  const inputNode = inputContext.createMediaStreamSource(stream);
  const processor = inputContext.createScriptProcessor(4096, 1, 1);
  const instruction = ...;
  sessionPromise = ai.live.connect({ model: ..., callbacks: {...}, config: {...} });

  } catch (e) { console.error("Live Init Error", e); setStatus('error'); }

  onopen: () => {
      if(mounted) setStatus('connected');
      processor.onaudioprocess = (e) => { ... };
      inputNode.connect(processor);
      processor.connect(inputContext.destination);
  },
  onmessage: async (msg: LiveServerMessage) => {
      if (!mounted) return;
      const audioData = msg.serverContent?.modelTurn?.parts?.[0]?.inlineData?.data;
      if (audioData) {
          const buffer = await decodeAudio(audioData, outputContext);
          playAudio(buffer, outputContext);
      }
      if (msg.serverContent?.modelTurn?.parts?.[0]?.text) { }
  },
  onclose: () => { if(mounted) setStatus('closed'); },
  onerror: (e) => { console.error(e); if(mounted) setStatus('error'); }

  processor.onaudioprocess = (e) => {
      const inputData = e.inputBuffer.getChannelData(0);
      const pcm16 = floatTo16BitPCM(inputData);
      const base64 = btoa(String.fromCharCode(...new Uint8Array(pcm16.buffer)));
      sessionPromise?.then(session => {
          session.sendRealtimeInput({ media: { mimeType: 'audio/pcm;rate=16000', data: base64 } });
      });
  };

  source.onended = () => sourcesRef.current.delete(source);

  return () => {
      mounted = false;
      inputContextRef.current?.close();
      outputContextRef.current?.close();
      sourcesRef.current.forEach(s => s.stop());
  };
  \<close>
  \<open>decodeAudio\<close> waits for nothing, so the \<open>await\<close> in \<open>onmessage\<close> resumes before any
  other event is handled: the callback is one step. When \<open>decodeAudio\<close> throws, the
  promise of \<open>onmessage\<close> is rejected and \<open>playAudio\<close> is not reached. The handler
  \<open>onaudioprocess\<close> exists once \<open>onopen\<close> has run, and by then the promise of
  \<open>connect\<close> is about to be fulfilled, so \<open>then\<close> runs its callback. A source node is
  new when \<open>playAudio\<close> adds it to the set, so adding appends it. Clock values and
  durations are modelled as real numbers.
\<close>

fun step :: "event \<Rightarrow> LiveSession \<Rightarrow> LiveSession \<times> call list" where
  "step GetUserMediaResolved s =
     (s\<lparr>sessionPromise := True\<rparr>,
      [LiveConnect \<lparr>model = ''gemini-2.5-flash-native-audio-preview-09-2025'',
                    voiceName = ''Zephyr'',
                    systemInstruction = instruction (context_prop s)\<rparr>])"
| "step GetUserMediaRejected s = (s\<lparr>status := Error\<rparr>, [])"
| "step OnOpen s =
     ((if mounted s then s\<lparr>status := Connected\<rparr> else s)\<lparr>onaudioprocess := True\<rparr>,
      [NodesConnect])"
| "step (OnMessage msg now) s =
     (if \<not> mounted s then (s, [])
      else (case inlineData msg of
              None \<Rightarrow> (s, [])
            | Some audioData \<Rightarrow>
                if audioData = [] then (s, [])
                else (case decodeAudio audioData of
                        Inl e \<Rightarrow> (s, [])
                      | Inr buffer \<Rightarrow> playAudio buffer now s)))"
| "step OnClose s = (if mounted s then s\<lparr>status := Closed\<rparr> else s, [])"
| "step OnError s = (if mounted s then s\<lparr>status := Error\<rparr> else s, [])"
| "step (AudioProcess inputData) s =
     (if \<not> onaudioprocess s then (s, [])
      else (let pcm16 = floatTo16BitPCM inputData;
                base64 = btoa (String_fromCharCode (Uint8Array_of_buffer pcm16))
            in (s, if sessionPromise s
                   then [SendRealtimeInput ''audio/pcm;rate=16000'' base64]
                   else [])))"
| "step (SourceEnded source) s = (s\<lparr>sourcesRef := removeAll source (sourcesRef s)\<rparr>, [])"
| "step Cleanup s =
     (s\<lparr>mounted := False,
        inputContextRef := close_context (inputContextRef s),
        outputContextRef := close_context (outputContextRef s)\<rparr>,
      close_call (inputContextRef s) InputContextClose
      @ close_call (outputContextRef s) OutputContextClose
      @ map SourceStop (sourcesRef s))"

text \<open>A sequence of events, handled one after the other; the calls in order.\<close>

fun run :: "event list \<Rightarrow> LiveSession \<Rightarrow> LiveSession \<times> call list" where
  "run [] s = (s, [])"
| "run (e # es) s =
     (let (s1, c1) = step e s; (s2, c2) = run es s1 in (s2, c1 @ c2))"

text \<open>
  The scheduled playbacks of the specification, read off the calls \<open>source.start(start)\<close>:
  a playback ends \<open>buffer.duration\<close> after it starts.
\<close>

record ScheduledPlayback =
  playback_start :: real
  playback_end :: real

fun scheduled :: "call list \<Rightarrow> ScheduledPlayback list" where
  "scheduled [] = []"
| "scheduled (SourceStart source buffer start # cs) =
     \<lparr>playback_start = start, playback_end = start + duration buffer\<rparr> # scheduled cs"
| "scheduled (c # cs) = scheduled cs"


text \<open>A message that carries three samples of silence, for the examples below.\<close>

definition silent_chunk :: LiveServerMessage where
  "silent_chunk = \<lparr>inlineData = Some ''AAAAAAAA'', text_part = None\<rparr>"

section \<open>Properties of the sample codec\<close>

subsection \<open>Bytes and 16-bit elements\<close>

lemma int16_of_bytes_int16_bytes:
  "int16_of_bytes (ucast w) (ucast (drop_bit 8 w)) = (w :: 16 word)"
  unfolding int16_of_bytes_def
  by (rule bit_word_eqI) (auto simp: bit_simps)

lemma int16_elements_Uint8Array: "int16_elements (Uint8Array_of_buffer ws) = ws"
  by (induction ws)
    (simp_all add: Uint8Array_of_buffer_def int16_bytes_def int16_of_bytes_int16_bytes)

lemma length_Uint8Array: "length (Uint8Array_of_buffer ws) = 2 * length ws"
  by (induction ws) (simp_all add: Uint8Array_of_buffer_def int16_bytes_def)

lemma nth_Uint8Array:
  "i < length ws \<Longrightarrow>
     Uint8Array_of_buffer ws ! (2 * i) = ucast (ws ! i) \<and>
     Uint8Array_of_buffer ws ! (2 * i + 1) = ucast (drop_bit 8 (ws ! i))"
proof (induction ws arbitrary: i)
  case Nil
  then show ?case by simp
next
  case (Cons w ws)
  show ?case
  proof (cases i)
    case 0
    then show ?thesis by (simp add: Uint8Array_of_buffer_def int16_bytes_def)
  next
    case (Suc j)
    with Cons.prems have "j < length ws" by simp
    from Cons.IH[OF this] Suc show ?thesis
      by (simp add: Uint8Array_of_buffer_def int16_bytes_def)
  qed
qed

lemma length_int16_elements: "length (int16_elements bs) = length bs div 2"
  by (induction bs rule: int16_elements.induct) simp_all

lemma nth_int16_elements:
  "i < length bs div 2 \<Longrightarrow>
     int16_elements bs ! i = int16_of_bytes (bs ! (2 * i)) (bs ! (2 * i + 1))"
proof (induction bs arbitrary: i rule: int16_elements.induct)
  case (1 lo hi bs)
  then show ?case by (cases i) simp_all
qed simp_all

lemma low_byte: "(ucast (w :: 16 word) :: byte) = word_of_int (sint w)"
  by (rule bit_word_eqI) (auto simp: bit_simps)

lemma high_byte: "(ucast (drop_bit 8 (w :: 16 word)) :: byte) = word_of_int (sint w div 256)"
proof -
  have "sint w div 256 = drop_bit 8 (sint w)" by (simp add: drop_bit_eq_div)
  moreover have "(ucast (drop_bit 8 w) :: byte) = word_of_int (drop_bit 8 (sint w))"
  proof (rule bit_word_eqI)
    fix n assume "n < LENGTH(8)"
    then show "bit (ucast (drop_bit 8 w) :: byte) n
        = bit (word_of_int (drop_bit 8 (sint w)) :: byte) n"
      by (cases "n = 7") (auto simp: bit_simps min_def)
  qed
  ultimately show ?thesis by simp
qed

lemma sint_word_of_int_16:
  "- 32768 \<le> n \<Longrightarrow> n \<le> 32767 \<Longrightarrow> sint (word_of_int n :: 16 word) = n"
  by (simp add: sint_sbintrunc' signed_take_bit_int_eq_self)

lemma sint_16_range: "- 32768 \<le> sint (w :: 16 word) \<and> sint w \<le> 32767"
  using sint_ge[of w] sint_lt[of w] by simp

subsection \<open>One sample\<close>

lemma trunc_nonneg:
  "0 \<le> c \<Longrightarrow> c \<le> 1 \<Longrightarrow> 0 \<le> trunc (c * 32767) \<and> trunc (c * 32767) \<le> 32767"
  unfolding trunc_def by (auto simp: le_floor_iff floor_le_iff)

lemma trunc_neg:
  "- 1 \<le> c \<Longrightarrow> c < 0 \<Longrightarrow> - 32768 \<le> trunc (c * 32768) \<and> trunc (c * 32768) \<le> 0"
  unfolding trunc_def by (auto simp: le_ceiling_iff ceiling_le_iff)

lemma sint_encode_Num:
  "sint (encode_sample (Num x)) =
     (let c = max (- 1) (min 1 x)
      in if c < 0 then trunc (c * 32768) else trunc (c * 32767))"
proof -
  define c where "c = max (- 1) (min 1 x)"
  have r: "- 1 \<le> c" "c \<le> 1" by (auto simp: c_def)
  show ?thesis
  proof (cases "c < 0")
    case True
    with r trunc_neg[of c] show ?thesis
      by (simp add: encode_sample_def clamp_sample_def c_def[symmetric] Let_def
          sint_word_of_int_16)
  next
    case False
    with r trunc_nonneg[of c] show ?thesis
      by (simp add: encode_sample_def clamp_sample_def c_def[symmetric] Let_def
          sint_word_of_int_16)
  qed
qed

lemma sint_encode_special:
  "sint (encode_sample PosInfinity) = 32767"
  "sint (encode_sample NegInfinity) = - 32768"
  "sint (encode_sample NaN) = 0"
  by (simp_all add: encode_sample_def clamp_sample_def trunc_def)

lemma decode_encode:
  "decodePCM16 (encodePCM16 samples)
     = Inr (map (\<lambda>x. real_of_int (sint (encode_sample x)) / 32768) samples)"
  by (simp add: decodePCM16_def encodePCM16_def Int16Array_of_buffer_def
      length_Uint8Array int16_elements_Uint8Array floatTo16BitPCM_def comp_def)

lemma roundtrip_nonneg:
  assumes "0 \<le> x" "x \<le> 1"
  shows "0 \<le> x - real_of_int (sint (encode_sample (Num x))) / 32768"
    and "x - real_of_int (sint (encode_sample (Num x))) / 32768 < 2 / 32768"
proof -
  have s: "sint (encode_sample (Num x)) = \<lfloor>x * 32767\<rfloor>"
    using assms by (simp add: sint_encode_Num trunc_def)
  define f where "f = real_of_int \<lfloor>x * 32767\<rfloor>"
  have a: "f \<le> x * 32767" unfolding f_def by (rule of_int_floor_le)
  have b: "x * 32767 - 1 < f" unfolding f_def by linarith
  show "0 \<le> x - real_of_int (sint (encode_sample (Num x))) / 32768"
    unfolding s f_def[symmetric] using a assms by linarith
  show "x - real_of_int (sint (encode_sample (Num x))) / 32768 < 2 / 32768"
    unfolding s f_def[symmetric] using b assms by linarith
qed

lemma roundtrip_neg:
  assumes "- 1 \<le> x" "x < 0"
  shows "0 \<le> real_of_int (sint (encode_sample (Num x))) / 32768 - x"
    and "real_of_int (sint (encode_sample (Num x))) / 32768 - x < 1 / 32768"
proof -
  have s: "sint (encode_sample (Num x)) = \<lceil>x * 32768\<rceil>"
    using assms by (simp add: sint_encode_Num trunc_def)
  define f where "f = real_of_int \<lceil>x * 32768\<rceil>"
  have a: "x * 32768 \<le> f" unfolding f_def by (rule le_of_int_ceiling)
  have b: "f < x * 32768 + 1" unfolding f_def by linarith
  show "0 \<le> real_of_int (sint (encode_sample (Num x))) / 32768 - x"
    unfolding s f_def[symmetric] using a by linarith
  show "real_of_int (sint (encode_sample (Num x))) / 32768 - x < 1 / 32768"
    unfolding s f_def[symmetric] using b by linarith
qed

lemma uint_int16_of_bytes: "uint (int16_of_bytes lo hi) = uint lo + 256 * uint hi"
proof -
  have b: "0 \<le> uint lo" "uint lo < 256" "0 \<le> uint hi" "uint hi < 256"
    using uint_lt2p[of lo] uint_lt2p[of hi] by simp_all
  have "push_bit 8 (ucast hi :: 16 word) OR ucast lo = push_bit 8 (ucast hi) + ucast lo"
    by (rule disjunctive_add_eq_or[symmetric]) (auto simp: bit_simps bit_eq_iff dest: bit_imp_le_length)
  also have "\<dots> = word_of_int (uint lo + 256 * uint hi)"
    by (simp add: push_bit_eq_mult)
  finally have "int16_of_bytes lo hi = word_of_int (uint lo + 256 * uint hi)"
    by (simp add: int16_of_bytes_def)
  then have "uint (int16_of_bytes lo hi) = uint (word_of_int (uint lo + 256 * uint hi) :: 16 word)"
    by (simp only:)
  also have "\<dots> = (uint lo + 256 * uint hi) mod 65536"
    unfolding uint_word_of_int by simp
  also have "\<dots> = uint lo + 256 * uint hi"
    using b by simp
  finally show ?thesis .
qed

lemma sint_16_uint: "sint (w :: 16 word) = (if uint w < 32768 then uint w else uint w - 65536)"
proof -
  have b: "0 \<le> uint w" "uint w < 65536" using uint_lt2p[of w] by simp_all
  have "sint w = (uint w + 32768) mod 65536 - 32768"
    by (simp add: sint_uint signed_take_bit_eq_take_bit_shift take_bit_eq_mod)
  also have "(uint w + 32768) mod 65536 = (if uint w < 32768 then uint w + 32768 else uint w - 32768)"
  proof (cases "uint w < 32768")
    case True
    with b show ?thesis by simp
  next
    case False
    have e: "uint w + 32768 = (uint w - 32768) + 65536" by simp
    have "(uint w + 32768) mod 65536 = (uint w - 32768) mod 65536"
      by (subst e) (simp only: mod_add_self2)
    also have "\<dots> = uint w - 32768" using b False by simp
    finally show ?thesis using False by simp
  qed
  finally show ?thesis by simp
qed

lemma sint_int16_of_bytes:
  "sint (int16_of_bytes lo hi) =
     (let u = uint lo + 256 * uint hi in if u < 32768 then u else u - 65536)"
  by (simp add: sint_16_uint uint_int16_of_bytes Let_def)

text \<open>
  C5. The encoder gives two bytes per sample and nothing for an empty buffer. The value
  \<open>v\<close> of a sample is its clamp to \<open>[-1, 1]\<close> scaled by 32768 when negative and by 32767
  otherwise, truncated towards zero; it lies in the signed 16-bit range, so nothing
  wraps, and its low byte comes first. The infinities clamp to full scale and NaN
  encodes as 0. The encoder is a function of its input alone.
\<close>

theorem encodePCM16_clamp_scale:
  "length (encodePCM16 samples) = 2 * length samples \<and>
   encodePCM16 [] = [] \<and>
   (\<forall>i < length samples.
      \<exists>v. (case samples ! i of
              Num x \<Rightarrow>
                (let c = max (- 1) (min 1 x)
                 in v = (if c < 0 then trunc (c * 32768) else trunc (c * 32767)))
            | PosInfinity \<Rightarrow> v = 32767
            | NegInfinity \<Rightarrow> v = - 32768
            | NaN \<Rightarrow> v = 0) \<and>
           - 32768 \<le> v \<and> v \<le> 32767 \<and>
           encodePCM16 samples ! (2 * i) = word_of_int v \<and>
           encodePCM16 samples ! (2 * i + 1) = word_of_int (v div 256))"
proof (intro conjI allI impI)
  show "length (encodePCM16 samples) = 2 * length samples"
    by (simp add: encodePCM16_def length_Uint8Array floatTo16BitPCM_def)
  show "encodePCM16 [] = []"
    by (simp add: encodePCM16_def floatTo16BitPCM_def Uint8Array_of_buffer_def)
next
  fix i assume i: "i < length samples"
  define w where "w = encode_sample (samples ! i)"
  have n: "floatTo16BitPCM samples ! i = w" "i < length (floatTo16BitPCM samples)"
    using i by (simp_all add: floatTo16BitPCM_def w_def)
  have u: "encodePCM16 samples ! (2 * i) = ucast w"
    "encodePCM16 samples ! (2 * i + 1) = ucast (drop_bit 8 w)"
    using nth_Uint8Array[OF n(2)] n(1) by (simp_all add: encodePCM16_def)
  have bytes: "encodePCM16 samples ! (2 * i) = word_of_int (sint w)"
    "encodePCM16 samples ! (2 * i + 1) = word_of_int (sint w div 256)"
    unfolding u by (rule low_byte, rule high_byte)
  have val: "case samples ! i of
      Num x \<Rightarrow>
        (let c = max (- 1) (min 1 x)
         in sint w = (if c < 0 then trunc (c * 32768) else trunc (c * 32767)))
    | PosInfinity \<Rightarrow> sint w = 32767
    | NegInfinity \<Rightarrow> sint w = - 32768
    | NaN \<Rightarrow> sint w = 0"
    unfolding w_def
    by (cases "samples ! i") (simp_all add: sint_encode_Num sint_encode_special Let_def)
  from val bytes sint_16_range[of w]
  show "\<exists>v. (case samples ! i of
              Num x \<Rightarrow>
                (let c = max (- 1) (min 1 x)
                 in v = (if c < 0 then trunc (c * 32768) else trunc (c * 32767)))
            | PosInfinity \<Rightarrow> v = 32767
            | NegInfinity \<Rightarrow> v = - 32768
            | NaN \<Rightarrow> v = 0) \<and>
           - 32768 \<le> v \<and> v \<le> 32767 \<and>
           encodePCM16 samples ! (2 * i) = word_of_int v \<and>
           encodePCM16 samples ! (2 * i + 1) = word_of_int (v div 256)"
    by (intro exI[of _ "sint w"]) simp
qed

theorem encodePCM16_clamp_scale_witness:
  "length (encodePCM16 [Num 2, Num (- 1 / 2), NaN]) = 6 \<and>
   (\<exists>v. v = trunc (1 * 32767) \<and> encodePCM16 [Num 2, Num (- 1 / 2), NaN] ! 0 = word_of_int v
      \<and> encodePCM16 [Num 2, Num (- 1 / 2), NaN] ! 1 = word_of_int (v div 256)) \<and>
   encodePCM16 [Num 2, Num (- 1 / 2), NaN] = [255, 127, 0, 192, 0, 0]"
  using encodePCM16_clamp_scale[of "[Num 2, Num (- 1 / 2), NaN]"]
  by (simp add: encodePCM16_def floatTo16BitPCM_def Uint8Array_of_buffer_def int16_bytes_def
      encode_sample_def clamp_sample_def trunc_def)

text \<open>
  C6. The PCM step fails, with a RangeError, exactly when the number of bytes is odd.
  Otherwise it returns one number per pair of bytes: the pair read as a signed 16-bit
  value, low byte first, divided by 32768.
\<close>

theorem decodePCM16_fails_iff_odd:
  "(decodePCM16 bytes = Inl RangeError \<longleftrightarrow> length bytes mod 2 \<noteq> 0) \<and>
   ((\<exists>e. decodePCM16 bytes = Inl e) \<longleftrightarrow> length bytes mod 2 \<noteq> 0) \<and>
   (length bytes mod 2 = 0 \<longrightarrow>
      (\<exists>float32. decodePCM16 bytes = Inr float32 \<and>
         length float32 = length bytes div 2 \<and>
         (\<forall>i < length float32.
            float32 ! i =
              real_of_int
                (let u = uint (bytes ! (2 * i)) + 256 * uint (bytes ! (2 * i + 1))
                 in if u < 32768 then u else u - 65536) / 32768)))"
  by (auto simp add: decodePCM16_def Int16Array_of_buffer_def length_int16_elements
      nth_int16_elements sint_int16_of_bytes Let_def simp del: of_int_sint of_int_uint)

theorem decodePCM16_fails_iff_odd_witness:
  "decodePCM16 [0, 128, 255] = Inl RangeError \<and>
   decodePCM16 [0, 128, 255, 127] = Inr [- 1, 32767 / 32768]"
  using decodePCM16_fails_iff_odd[of "[0, 128, 255]"]
    decodePCM16_fails_iff_odd[of "[0, 128, 255, 127]"]
  by (simp add: decodePCM16_def Int16Array_of_buffer_def int16_of_bytes_def)

text \<open>
  C2, as amended. For samples in \<open>[-1, 1]\<close> the decoded buffer has the length of the
  input, and every decoded sample is less than two quantization steps (\<open>2 / 32768\<close>)
  away from its original; a negative sample is less than one step away. The bound of
  one step does not hold for the non-negative samples, which are scaled by 32767 and
  divided by 32768: see the counterexample at \<open>65535 / 65536\<close>.
\<close>

theorem roundtrip_within_two_steps:
  assumes "\<forall>x \<in> set S. - 1 \<le> x \<and> x \<le> 1"
  shows "\<exists>D. decodePCM16 (encodePCM16 (map Num S)) = Inr D \<and>
           length D = length S \<and>
           (\<forall>i < length S.
              \<bar>D ! i - S ! i\<bar> < 2 / 32768 \<and>
              (S ! i < 0 \<longrightarrow> \<bar>D ! i - S ! i\<bar> < 1 / 32768))"
proof -
  let ?D = "map (\<lambda>x. real_of_int (sint (encode_sample x)) / 32768) (map Num S)"
  have "\<bar>?D ! i - S ! i\<bar> < 2 / 32768 \<and> (S ! i < 0 \<longrightarrow> \<bar>?D ! i - S ! i\<bar> < 1 / 32768)"
    if i: "i < length S" for i
  proof -
    from assms i have r: "- 1 \<le> S ! i" "S ! i \<le> 1" by (auto simp: all_set_conv_all_nth) 
    show ?thesis
    proof (cases "S ! i < 0")
      case True
      from roundtrip_neg[OF r(1) True] i True show ?thesis by simp
    next
      case False
      then have "0 \<le> S ! i" by simp
      from roundtrip_nonneg[OF this r(2)] i False show ?thesis by simp
    qed
  qed
  then show ?thesis
    by (intro exI[of _ ?D]) (simp add: decode_encode)
qed

theorem roundtrip_within_two_steps_witness:
  "\<exists>D. decodePCM16 (encodePCM16 (map Num [65535 / 65536, - 1 / 3])) = Inr D \<and>
     length D = 2 \<and> \<bar>D ! 0 - 65535 / 65536\<bar> < 2 / 32768 \<and> \<bar>D ! 1 - (- 1 / 3)\<bar> < 1 / 32768"
proof -
  have p: "\<forall>x \<in> set [65535 / 65536, - 1 / 3 :: real]. - 1 \<le> x \<and> x \<le> 1"
    by simp
  from roundtrip_within_two_steps[OF p] obtain D
    where D: "decodePCM16 (encodePCM16 (map Num [65535 / 65536, - 1 / 3])) = Inr D"
      "length D = length [65535 / 65536, - 1 / 3 :: real]"
    and b: "\<forall>i < length [65535 / 65536, - 1 / 3 :: real].
              \<bar>D ! i - [65535 / 65536, - 1 / 3] ! i\<bar> < 2 / 32768 \<and>
              ([65535 / 65536, - 1 / 3 :: real] ! i < 0 \<longrightarrow>
                 \<bar>D ! i - [65535 / 65536, - 1 / 3] ! i\<bar> < 1 / 32768)"
    by blast
  from b[rule_format, of 0] b[rule_format, of 1] D show ?thesis
    by (intro exI[of _ D]) simp
qed

theorem roundtrip_one_step_counterexample:
  "decodePCM16 (encodePCM16 [Num (65535 / 65536)]) = Inr [32766 / 32768] \<and>
   - 1 \<le> (65535 / 65536 :: real) \<and> (65535 / 65536 :: real) \<le> 1 \<and>
   \<bar>32766 / 32768 - 65535 / 65536\<bar> > (1 / 32768 :: real)"
  by (simp add: decode_encode sint_encode_Num trunc_def del: of_int_sint)

section \<open>Properties of the transport text encoding\<close>

lemma of_char_char_of_byte: "(of_char (char_of (n::nat)) :: byte) = of_nat n"
proof -
  have "(of_char (char_of n) :: byte) = of_nat (of_char (char_of n))"
    by (simp only: of_nat_of_char)
  also have "\<dots> = of_nat (n mod 256)" by (simp only: of_char_of)
  also have "\<dots> = of_nat n"
    by (simp add: word_eq_iff_unsigned[where ?'a = nat] unsigned_of_nat take_bit_eq_mod)
  finally show ?thesis .
qed

lemma atob_8A: "atob ''AAAAAAAA'' = Inr (map char_of [0, 0, 0, 0, 0, 0 :: nat])"
  by (simp add: atob_def strip_padding_def ascii_whitespace_def b64_index_def)

lemma decodeAudio_three_samples:
  "decodeAudio ''AAAAAAAA'' = Inr \<lparr>channelData = [0, 0, 0], sampleRate = 24000\<rparr>"
  by (simp add: decodeAudio_def atob_8A of_char_char_of_byte decodePCM16_def
      Int16Array_of_buffer_def int16_of_bytes_def createBuffer_def)

lemma atob_4A: "atob ''AAAA'' = Inr (map char_of [0, 0, 0 :: nat])"
  by (simp add: atob_def strip_padding_def ascii_whitespace_def b64_index_def)

lemma decodeAudio_odd_bytes: "decodeAudio ''AAAA'' = Inl RangeError"
  by (simp add: decodeAudio_def atob_4A decodePCM16_def Int16Array_of_buffer_def)

lemma decodeAudio_bad_text: "decodeAudio ''!!!!'' = Inl InvalidCharacterError"
  by (simp add: decodeAudio_def atob_def strip_padding_def ascii_whitespace_def b64_index_def)

lemma btoa_zero: "btoa (String_fromCharCode (Uint8Array_of_buffer (floatTo16BitPCM [Num 0]))) = ''AAA=''"
  by (simp add: btoa_def String_fromCharCode_def Uint8Array_of_buffer_def floatTo16BitPCM_def
      encode_sample_def clamp_sample_def trunc_def int16_bytes_def b64_char_def base64_alphabet_def)

section \<open>Properties of the playback scheduler\<close>

subsection \<open>Runs\<close>

lemma scheduled_append: "scheduled (cs @ ds) = scheduled cs @ scheduled ds"
  by (induction cs rule: scheduled.induct) simp_all

lemma run_Cons_fst: "fst (run (e # es) s) = fst (run es (fst (step e s)))"
  by (simp add: split_beta Let_def)

lemma run_Cons_snd: "snd (run (e # es) s) = snd (step e s) @ snd (run es (fst (step e s)))"
  by (simp add: split_beta Let_def)

lemma run_append_fst: "fst (run (es @ fs) s) = fst (run fs (fst (run es s)))"
  by (induction es arbitrary: s) (simp_all add: split_beta Let_def)

lemma step_OnMessage_play:
  "mounted s \<Longrightarrow> inlineData msg = Some a \<Longrightarrow> a \<noteq> [] \<Longrightarrow> decodeAudio a = Inr b \<Longrightarrow>
     step (OnMessage msg now) s = playAudio b now s"
  by simp

lemma scheduled_playAudio:
  "scheduled (snd (playAudio b now s)) =
     [\<lparr>playback_start = max now (nextStartTimeRef s),
       playback_end = max now (nextStartTimeRef s) + duration b\<rparr>]"
  by (simp add: playAudio_def Let_def)

lemma cursor_playAudio:
  "nextStartTimeRef (fst (playAudio b now s)) = max now (nextStartTimeRef s) + duration b"
  by (simp add: playAudio_def Let_def)

lemma mounted_playAudio: "mounted (fst (playAudio b now s)) = mounted s"
  by (simp add: playAudio_def Let_def)

lemma duration_nonneg: "0 \<le> duration b"
  by (simp add: duration_def)

text \<open>What one event does to the cursor and to the schedule.\<close>

lemma step_schedule:
  "(scheduled (snd (step e s)) = [] \<and> nextStartTimeRef (fst (step e s)) = nextStartTimeRef s)
   \<or> (\<exists>msg now b. e = OnMessage msg now \<and>
         scheduled (snd (step e s)) =
           [\<lparr>playback_start = max now (nextStartTimeRef s),
             playback_end = max now (nextStartTimeRef s) + duration b\<rparr>] \<and>
         nextStartTimeRef (fst (step e s)) = max now (nextStartTimeRef s) + duration b)"
proof (cases e)
  case (OnMessage msg now)
  show ?thesis
  proof (cases "mounted s \<and> (\<exists>a b. inlineData msg = Some a \<and> a \<noteq> [] \<and> decodeAudio a = Inr b)")
    case True
    then obtain a b where "mounted s" "inlineData msg = Some a" "a \<noteq> []" "decodeAudio a = Inr b"
      by blast
    then have st: "step e s = playAudio b now s"
      unfolding OnMessage by (rule step_OnMessage_play)
    show ?thesis
      unfolding st
      by (intro disjI2 exI[of _ msg] exI[of _ now] exI[of _ b])
        (simp add: OnMessage scheduled_playAudio cursor_playAudio)
  next
    case False
    then have st: "step e s = (s, [])"
      unfolding OnMessage by (auto split: option.splits sum.splits)
    show ?thesis unfolding st by simp
  qed
next
  case (AudioProcess inputData)
  then show ?thesis by (simp add: Let_def)
next
  case Cleanup
  have "scheduled (map SourceStop xs) = []" for xs
    by (induction xs) simp_all
  with Cleanup show ?thesis
    by (simp add: close_call_def scheduled_append split: option.splits)
qed simp_all

text \<open>The cursor only moves forward, and a new playback starts at or after it.\<close>

lemma step_cursor_cases:
  obtains (none) "scheduled (snd (step e s)) = []"
      "nextStartTimeRef (fst (step e s)) = nextStartTimeRef s"
    | (play) msg now b where "e = OnMessage msg now"
      "scheduled (snd (step e s)) =
         [\<lparr>playback_start = max now (nextStartTimeRef s),
           playback_end = max now (nextStartTimeRef s) + duration b\<rparr>]"
      "nextStartTimeRef (fst (step e s)) = max now (nextStartTimeRef s) + duration b"
  using step_schedule[of e s] by blast

lemma step_cursor_mono: "nextStartTimeRef s \<le> nextStartTimeRef (fst (step e s))"
proof (cases e s rule: step_cursor_cases)
  case none
  then show ?thesis by simp
next
  case (play msg now b)
  have "nextStartTimeRef s \<le> max now (nextStartTimeRef s)" by simp
  also have "\<dots> \<le> max now (nextStartTimeRef s) + duration b"
    using duration_nonneg[of b] by simp
  finally show ?thesis using play(3) by simp
qed

lemma run_cursor_mono: "nextStartTimeRef s \<le> nextStartTimeRef (fst (run es s))"
proof (induction es arbitrary: s)
  case Nil
  show ?case by simp
next
  case (Cons e es)
  have "nextStartTimeRef s \<le> nextStartTimeRef (fst (step e s))"
    by (rule step_cursor_mono)
  also have "\<dots> \<le> nextStartTimeRef (fst (run es (fst (step e s))))"
    by (rule Cons.IH)
  finally show ?case by (simp only: run_Cons_fst)
qed

lemma run_cursor_unchanged:
  "scheduled (snd (run es s)) = [] \<Longrightarrow>
     nextStartTimeRef (fst (run es s)) = nextStartTimeRef s"
proof (induction es arbitrary: s)
  case Nil
  show ?case by simp
next
  case (Cons e es)
  from Cons.prems have e: "scheduled (snd (step e s)) = []"
    and r: "scheduled (snd (run es (fst (step e s)))) = []"
    by (simp_all add: run_Cons_snd scheduled_append del: run.simps)
  have "nextStartTimeRef (fst (step e s)) = nextStartTimeRef s"
    using e by (cases e s rule: step_cursor_cases) simp_all
  with Cons.IH[OF r] show ?case by (simp only: run_Cons_fst)
qed

lemma run_cursor_last:
  "scheduled (snd (run es s)) \<noteq> [] \<Longrightarrow>
     nextStartTimeRef (fst (run es s)) = playback_end (last (scheduled (snd (run es s))))"
proof (induction es arbitrary: s)
  case Nil
  then show ?case by simp
next
  case (Cons e es)
  let ?s1 = "fst (step e s)"
  show ?case
  proof (cases "scheduled (snd (run es ?s1)) = []")
    case False
    from Cons.IH[OF False] False show ?thesis
      by (simp add: run_Cons_fst run_Cons_snd scheduled_append del: run.simps)
  next
    case True
    with Cons.prems have ne: "scheduled (snd (step e s)) \<noteq> []"
      by (simp add: run_Cons_snd scheduled_append del: run.simps)
    have same: "nextStartTimeRef (fst (run es ?s1)) = nextStartTimeRef ?s1"
      using True by (rule run_cursor_unchanged)
    have "nextStartTimeRef ?s1 = playback_end (last (scheduled (snd (step e s))))"
      using ne by (cases e s rule: step_cursor_cases) simp_all
    with same True show ?thesis
      by (simp add: run_Cons_fst run_Cons_snd scheduled_append del: run.simps)
  qed
qed

text \<open>Every playback of a run starts at or after the cursor the run began with.\<close>

lemma run_starts_after_cursor:
  "p \<in> set (scheduled (snd (run es s))) \<Longrightarrow> nextStartTimeRef s \<le> playback_start p"
proof (induction es arbitrary: s)
  case Nil
  then show ?case by simp
next
  case (Cons e es)
  from Cons.prems consider
    (here) "p \<in> set (scheduled (snd (step e s)))"
    | (later) "p \<in> set (scheduled (snd (run es (fst (step e s)))))"
    by (auto simp add: run_Cons_snd scheduled_append simp del: run.simps)
  then show ?case
  proof cases
    case here
    then show ?thesis
      by (cases e s rule: step_cursor_cases) auto
  next
    case later
    have "nextStartTimeRef s \<le> nextStartTimeRef (fst (step e s))"
      by (rule step_cursor_mono)
    also have "\<dots> \<le> playback_start p"
      using later by (rule Cons.IH)
    finally show ?thesis .
  qed
qed

lemma run_sorted:
  "sorted_wrt (\<lambda>A B. playback_end A \<le> playback_start B) (scheduled (snd (run es s)))"
proof (induction es arbitrary: s)
  case Nil
  show ?case by simp
next
  case (Cons e es)
  let ?s1 = "fst (step e s)"
  have rest: "sorted_wrt (\<lambda>A B. playback_end A \<le> playback_start B)
      (scheduled (snd (run es ?s1)))"
    by (rule Cons.IH)
  have cross: "playback_end A \<le> playback_start B"
    if "A \<in> set (scheduled (snd (step e s)))" "B \<in> set (scheduled (snd (run es ?s1)))"
    for A B
  proof -
    have "playback_end A = nextStartTimeRef ?s1"
      using that(1) by (cases e s rule: step_cursor_cases) auto
    with run_starts_after_cursor[OF that(2)] show ?thesis by simp
  qed
  have first: "sorted_wrt (\<lambda>A B. playback_end A \<le> playback_start B)
      (scheduled (snd (step e s)))"
    by (cases e s rule: step_cursor_cases) simp_all
  from first rest cross show ?case
    by (simp only: run_Cons_snd scheduled_append sorted_wrt_append) blast
qed

lemma late_arrival:
  assumes "mounted s" "inlineData m = Some a" "a \<noteq> []" "decodeAudio a = Inr b"
    "nextStartTimeRef s \<le> now"
  shows "snd (step (OnMessage m now) s) = [SourceStart (sourceCount s) b now]"
  using assms by (simp add: playAudio_def Let_def max_def)

lemma three_chunks:
  assumes "mounted s" "nextStartTimeRef s \<le> t0"
    "inlineData m1 = Some a1" "a1 \<noteq> []" "decodeAudio a1 = Inr b1"
    "inlineData m2 = Some a2" "a2 \<noteq> []" "decodeAudio a2 = Inr b2"
    "inlineData m3 = Some a3" "a3 \<noteq> []" "decodeAudio a3 = Inr b3"
  shows "scheduled (snd (run [OnMessage m1 t0, OnMessage m2 t0, OnMessage m3 t0] s)) =
        [\<lparr>playback_start = t0, playback_end = t0 + duration b1\<rparr>,
         \<lparr>playback_start = t0 + duration b1, playback_end = t0 + duration b1 + duration b2\<rparr>,
         \<lparr>playback_start = t0 + duration b1 + duration b2,
           playback_end = t0 + duration b1 + duration b2 + duration b3\<rparr>]"
proof -
  let ?s1 = "fst (playAudio b1 t0 s)"
  let ?s2 = "fst (playAudio b2 t0 ?s1)"
  have m1: "mounted ?s1" and m2: "mounted ?s2"
    using assms(1) by (simp_all add: mounted_playAudio)
  have st1: "step (OnMessage m1 t0) s = playAudio b1 t0 s"
    using assms by (intro step_OnMessage_play)
  have st2: "step (OnMessage m2 t0) ?s1 = playAudio b2 t0 ?s1"
    using assms m1 by (intro step_OnMessage_play)
  have st3: "step (OnMessage m3 t0) ?s2 = playAudio b3 t0 ?s2"
    using assms m2 by (intro step_OnMessage_play)
  have mx1: "max t0 (nextStartTimeRef s) = t0"
    using assms(2) by simp
  have mx2: "max t0 (t0 + duration b1) = t0 + duration b1"
    using duration_nonneg[of b1] by simp
  have mx3: "max t0 (t0 + duration b1 + duration b2) = t0 + duration b1 + duration b2"
    using duration_nonneg[of b1] duration_nonneg[of b2] by simp
  have c1: "nextStartTimeRef ?s1 = t0 + duration b1"
    by (simp only: cursor_playAudio mx1)
  have c2: "nextStartTimeRef ?s2 = t0 + duration b1 + duration b2"
    by (simp only: cursor_playAudio[of b2] c1 mx2)
  have p1: "scheduled (snd (playAudio b1 t0 s))
      = [\<lparr>playback_start = t0, playback_end = t0 + duration b1\<rparr>]"
    by (simp only: scheduled_playAudio mx1)
  have p2: "scheduled (snd (playAudio b2 t0 ?s1))
      = [\<lparr>playback_start = t0 + duration b1, playback_end = t0 + duration b1 + duration b2\<rparr>]"
    by (simp only: scheduled_playAudio c1 mx2)
  have p3: "scheduled (snd (playAudio b3 t0 ?s2))
      = [\<lparr>playback_start = t0 + duration b1 + duration b2,
          playback_end = t0 + duration b1 + duration b2 + duration b3\<rparr>]"
    by (simp only: scheduled_playAudio c2 mx3)
  have r0: "scheduled (snd (run [] t)) = []" for t
    by simp
  show ?thesis
    by (simp only: run_Cons_snd run_Cons_fst st1 st2 st3 scheduled_append p1 p2 p3 r0
        append_Cons append_Nil)
qed

lemma next_playback:
  assumes "scheduled (snd (run evs s)) \<noteq> []"
    and "scheduled (snd (step (OnMessage msg now) (fst (run evs s)))) \<noteq> []"
  shows "\<exists>B. scheduled (snd (step (OnMessage msg now) (fst (run evs s)))) = [B] \<and>
           playback_start B = max now (playback_end (last (scheduled (snd (run evs s))))) \<and>
           playback_end (last (scheduled (snd (run evs s)))) \<le> playback_start B"
proof -
  let ?s1 = "fst (run evs s)"
  have c: "nextStartTimeRef ?s1 = playback_end (last (scheduled (snd (run evs s))))"
    using assms(1) by (rule run_cursor_last)
  show ?thesis
  proof (cases "OnMessage msg now" ?s1 rule: step_cursor_cases)
    case none
    with assms(2) show ?thesis by simp
  next
    case (play msg' now' b)
    then show ?thesis by (simp add: c del: step.simps)
  qed
qed

text \<open>
  C1. Whatever events a session handles, from whatever state: the playbacks it
  schedules do not overlap, each later one starting at or after the end of each earlier
  one; and a playback \<open>B\<close> scheduled by a message at clock time \<open>now\<close>, after a run whose
  last playback is \<open>A\<close>, starts at \<open>max now (playback_end A)\<close>. Three chunks delivered at
  the same clock time \<open>t0\<close>, with the cursor not ahead of \<open>t0\<close>, start at \<open>t0\<close>,
  \<open>t0 + d1\<close> and \<open>t0 + d1 + d2\<close>. A chunk that arrives when the clock has passed the
  cursor is started at the clock time.
\<close>

theorem playback_schedule_order:
  "sorted_wrt (\<lambda>A B. playback_end A \<le> playback_start B) (scheduled (snd (run evs s))) \<and>
   (scheduled (snd (run evs s)) \<noteq> [] \<and>
    scheduled (snd (step (OnMessage msg now) (fst (run evs s)))) \<noteq> [] \<longrightarrow>
      (\<exists>B. scheduled (snd (step (OnMessage msg now) (fst (run evs s)))) = [B] \<and>
           playback_start B = max now (playback_end (last (scheduled (snd (run evs s))))) \<and>
           playback_end (last (scheduled (snd (run evs s)))) \<le> playback_start B)) \<and>
   (mounted s \<and> nextStartTimeRef s \<le> t0 \<and>
    inlineData m1 = Some a1 \<and> a1 \<noteq> [] \<and> decodeAudio a1 = Inr b1 \<and>
    inlineData m2 = Some a2 \<and> a2 \<noteq> [] \<and> decodeAudio a2 = Inr b2 \<and>
    inlineData m3 = Some a3 \<and> a3 \<noteq> [] \<and> decodeAudio a3 = Inr b3 \<longrightarrow>
      scheduled (snd (run [OnMessage m1 t0, OnMessage m2 t0, OnMessage m3 t0] s)) =
        [\<lparr>playback_start = t0, playback_end = t0 + duration b1\<rparr>,
         \<lparr>playback_start = t0 + duration b1, playback_end = t0 + duration b1 + duration b2\<rparr>,
         \<lparr>playback_start = t0 + duration b1 + duration b2,
           playback_end = t0 + duration b1 + duration b2 + duration b3\<rparr>]) \<and>
   (mounted s \<and> inlineData m = Some a \<and> a \<noteq> [] \<and> decodeAudio a = Inr b \<and>
    nextStartTimeRef s \<le> late \<longrightarrow>
      snd (step (OnMessage m late) s) = [SourceStart (sourceCount s) b late])"
  using run_sorted[of evs s] next_playback[of evs s msg now]
    three_chunks[of s t0 m1 a1 b1 m2 a2 b2 m3 a3 b3] late_arrival[of s m a b late]
  by blast

lemma init_facts:
  "mounted (fst (init c))" "nextStartTimeRef (fst (init c)) = 0" "sourceCount (fst (init c)) = 0"
  by (simp_all add: init_def)

lemma duration_three: "duration \<lparr>channelData = [0, 0, 0], sampleRate = 24000\<rparr> = 1 / 8000"
  by (simp add: duration_def)

theorem playback_schedule_order_witness:
  "scheduled (snd (run [OnMessage silent_chunk 5, OnMessage silent_chunk 5, OnMessage silent_chunk 5] (fst (init None))))
     = [\<lparr>playback_start = 5, playback_end = 5 + 1 / 8000\<rparr>,
        \<lparr>playback_start = 5 + 1 / 8000, playback_end = 5 + 1 / 8000 + 1 / 8000\<rparr>,
        \<lparr>playback_start = 5 + 1 / 8000 + 1 / 8000,
          playback_end = 5 + 1 / 8000 + 1 / 8000 + 1 / 8000\<rparr>] \<and>
   snd (step (OnMessage silent_chunk 7) (fst (init None)))
     = [SourceStart 0 \<lparr>channelData = [0, 0, 0], sampleRate = 24000\<rparr> 7] \<and>
   (\<exists>B. scheduled (snd (step (OnMessage silent_chunk 9)
            (fst (run [OnMessage silent_chunk 5] (fst (init None)))))) = [B] \<and>
        playback_start B = max 9 (5 + 1 / 8000))"
proof -
  note inst = playback_schedule_order[of "[OnMessage silent_chunk 5]" "fst (init None)" silent_chunk 9 5
      silent_chunk "''AAAAAAAA''" "\<lparr>channelData = [0, 0, 0], sampleRate = 24000\<rparr>"
      silent_chunk "''AAAAAAAA''" "\<lparr>channelData = [0, 0, 0], sampleRate = 24000\<rparr>"
      silent_chunk "''AAAAAAAA''" "\<lparr>channelData = [0, 0, 0], sampleRate = 24000\<rparr>"
      silent_chunk "''AAAAAAAA''" "\<lparr>channelData = [0, 0, 0], sampleRate = 24000\<rparr>" 7]
  have hyp: "mounted (fst (init None))" "nextStartTimeRef (fst (init None)) \<le> 5"
    "nextStartTimeRef (fst (init None)) \<le> 7"
    "inlineData silent_chunk = Some ''AAAAAAAA''" "''AAAAAAAA'' \<noteq> []"
    "decodeAudio ''AAAAAAAA'' = Inr \<lparr>channelData = [0, 0, 0], sampleRate = 24000\<rparr>"
    by (simp_all add: init_facts silent_chunk_def decodeAudio_three_samples)
  have one: "scheduled (snd (run [OnMessage silent_chunk 5] (fst (init None))))
      = [\<lparr>playback_start = 5, playback_end = 5 + 1 / 8000\<rparr>]"
    by (simp add: silent_chunk_def decodeAudio_three_samples playAudio_def init_def duration_three Let_def)
  have two: "scheduled (snd (step (OnMessage silent_chunk 9)
      (fst (run [OnMessage silent_chunk 5] (fst (init None)))))) \<noteq> []"
    by (simp add: silent_chunk_def decodeAudio_three_samples playAudio_def init_def Let_def)
  from inst hyp one two show ?thesis
    by (auto simp add: duration_three init_facts simp del: step.simps run.simps)
qed

section \<open>Properties of the session\<close>

subsection \<open>Decode failures\<close>

lemma decodeAudio_atob_fails: "atob a = Inl e \<Longrightarrow> decodeAudio a = Inl e"
  by (simp add: decodeAudio_def)

lemma decodeAudio_odd_fails:
  "atob a = Inr bs \<Longrightarrow> length bs mod 2 \<noteq> 0 \<Longrightarrow> decodeAudio a = Inl RangeError"
  by (simp add: decodeAudio_def decodePCM16_def Int16Array_of_buffer_def)

lemma step_decode_failure:
  "inlineData msg = Some a \<Longrightarrow> decodeAudio a = Inl e \<Longrightarrow> step (OnMessage msg now) s = (s, [])"
  by simp

lemma run_failure_then_chunk:
  assumes "mounted s" "inlineData msg = Some audioData" "decodeAudio audioData = Inl e"
    "inlineData msg2 = Some audioData2" "audioData2 \<noteq> []" "decodeAudio audioData2 = Inr buffer"
  shows "run [OnMessage msg now, OnMessage msg2 now2] s = playAudio buffer now2 s"
proof -
  have st1: "step (OnMessage msg now) s = (s, [])"
    using assms(2,3) by (rule step_decode_failure)
  have st2: "step (OnMessage msg2 now2) s = playAudio buffer now2 s"
    using assms(1,4,5,6) by (rule step_OnMessage_play)
  show ?thesis
    by (simp add: st1 st2 del: step.simps)
qed

text \<open>
  C7. When decoding the audio of a message fails, \<open>onmessage\<close> leaves the session as it
  was and calls nothing: the cursor, the status and the active set are unchanged, no
  playback is scheduled, and the events that follow are handled as if the message had
  not come. In particular a chunk that follows and decodes is played: its source is
  started at the later of its clock time and the cursor the session had before the
  failed chunk, and the cursor moves to the end of that playback. Text that \<open>atob\<close>
  rejects and an odd number of bytes are such failures.
\<close>

theorem decode_failure_drops_chunk:
  "(inlineData msg = Some audioData \<and> decodeAudio audioData = Inl e \<longrightarrow>
      step (OnMessage msg now) s = (s, []) \<and>
      nextStartTimeRef (fst (step (OnMessage msg now) s)) = nextStartTimeRef s \<and>
      status (fst (step (OnMessage msg now) s)) = status s \<and>
      sourcesRef (fst (step (OnMessage msg now) s)) = sourcesRef s \<and>
      scheduled (snd (step (OnMessage msg now) s)) = [] \<and>
      run (OnMessage msg now # evs) s = run evs s) \<and>
   (mounted s \<and> inlineData msg = Some audioData \<and> decodeAudio audioData = Inl e \<and>
    inlineData msg2 = Some audioData2 \<and> audioData2 \<noteq> [] \<and>
    decodeAudio audioData2 = Inr buffer \<longrightarrow>
      snd (run [OnMessage msg now, OnMessage msg2 now2] s)
        = [SourceStart (sourceCount s) buffer (max now2 (nextStartTimeRef s))] \<and>
      nextStartTimeRef (fst (run [OnMessage msg now, OnMessage msg2 now2] s))
        = max now2 (nextStartTimeRef s) + duration buffer \<and>
      sourcesRef (fst (run [OnMessage msg now, OnMessage msg2 now2] s))
        = sourcesRef s @ [sourceCount s] \<and>
      status (fst (run [OnMessage msg now, OnMessage msg2 now2] s)) = status s \<and>
      mounted (fst (run [OnMessage msg now, OnMessage msg2 now2] s))) \<and>
   (atob audioData = Inl e \<longrightarrow> decodeAudio audioData = Inl e) \<and>
   (atob audioData = Inr binaryString \<and> length binaryString mod 2 \<noteq> 0 \<longrightarrow>
      decodeAudio audioData = Inl RangeError)"
proof (intro conjI impI)
  assume a: "inlineData msg = Some audioData \<and> decodeAudio audioData = Inl e"
  then have st: "step (OnMessage msg now) s = (s, [])"
    using step_decode_failure[of msg audioData e now s] by blast
  show "step (OnMessage msg now) s = (s, [])" by (rule st)
  show "nextStartTimeRef (fst (step (OnMessage msg now) s)) = nextStartTimeRef s"
    "status (fst (step (OnMessage msg now) s)) = status s"
    "sourcesRef (fst (step (OnMessage msg now) s)) = sourcesRef s"
    "scheduled (snd (step (OnMessage msg now) s)) = []"
    by (simp_all only: st fst_conv snd_conv scheduled.simps)
  show "run (OnMessage msg now # evs) s = run evs s"
    by (simp add: st del: step.simps)
next
  assume b: "mounted s \<and> inlineData msg = Some audioData \<and> decodeAudio audioData = Inl e \<and>
    inlineData msg2 = Some audioData2 \<and> audioData2 \<noteq> [] \<and>
    decodeAudio audioData2 = Inr buffer"
  then have r: "run [OnMessage msg now, OnMessage msg2 now2] s = playAudio buffer now2 s"
    using run_failure_then_chunk[of s msg audioData e msg2 audioData2 buffer now now2]
    by blast
  show "snd (run [OnMessage msg now, OnMessage msg2 now2] s)
        = [SourceStart (sourceCount s) buffer (max now2 (nextStartTimeRef s))]"
    "nextStartTimeRef (fst (run [OnMessage msg now, OnMessage msg2 now2] s))
        = max now2 (nextStartTimeRef s) + duration buffer"
    "sourcesRef (fst (run [OnMessage msg now, OnMessage msg2 now2] s))
        = sourcesRef s @ [sourceCount s]"
    "status (fst (run [OnMessage msg now, OnMessage msg2 now2] s)) = status s"
    "mounted (fst (run [OnMessage msg now, OnMessage msg2 now2] s))"
    unfolding r using b by (simp_all add: playAudio_def Let_def)
next
  assume "atob audioData = Inl e"
  then show "decodeAudio audioData = Inl e" by (rule decodeAudio_atob_fails)
next
  assume "atob audioData = Inr binaryString \<and> length binaryString mod 2 \<noteq> 0"
  then show "decodeAudio audioData = Inl RangeError"
    using decodeAudio_odd_fails[of audioData binaryString] by blast
qed

theorem decode_failure_drops_chunk_witness:
  "step (OnMessage \<lparr>inlineData = Some ''!!!!'', text_part = None\<rparr> 3) (fst (init None))
     = (fst (init None), []) \<and>
   step (OnMessage \<lparr>inlineData = Some ''AAAA'', text_part = None\<rparr> 3) (fst (init None))
     = (fst (init None), []) \<and>
   snd (run [OnMessage \<lparr>inlineData = Some ''!!!!'', text_part = None\<rparr> 3,
             OnMessage silent_chunk 5] (fst (init None)))
     = [SourceStart 0 \<lparr>channelData = [0, 0, 0], sampleRate = 24000\<rparr> 5] \<and>
   nextStartTimeRef (fst (run [OnMessage \<lparr>inlineData = Some ''!!!!'', text_part = None\<rparr> 3,
             OnMessage silent_chunk 5] (fst (init None)))) = 5 + 1 / 8000 \<and>
   sourcesRef (fst (run [OnMessage \<lparr>inlineData = Some ''!!!!'', text_part = None\<rparr> 3,
             OnMessage silent_chunk 5] (fst (init None)))) = [0] \<and>
   status (fst (run [OnMessage \<lparr>inlineData = Some ''!!!!'', text_part = None\<rparr> 3,
             OnMessage silent_chunk 5] (fst (init None)))) = Connecting \<and>
   atob ''!!!!'' = Inl InvalidCharacterError \<and>
   atob ''AAAA'' = Inr (map char_of [0, 0, 0 :: nat]) \<and>
   decodeAudio ''!!!!'' = Inl InvalidCharacterError \<and>
   decodeAudio ''AAAA'' = Inl RangeError"
proof -
  note bad = decode_failure_drops_chunk[of "\<lparr>inlineData = Some ''!!!!'', text_part = None\<rparr>"
      "''!!!!''" InvalidCharacterError 3 "fst (init None)" "[]"
      silent_chunk "''AAAAAAAA''" "\<lparr>channelData = [0, 0, 0], sampleRate = 24000\<rparr>" 5 "''x''"]
  note odd_bytes = decode_failure_drops_chunk[of "\<lparr>inlineData = Some ''AAAA'', text_part = None\<rparr>"
      "''AAAA''" RangeError 3 "fst (init None)" "[]"
      silent_chunk "''AAAAAAAA''" "\<lparr>channelData = [0, 0, 0], sampleRate = 24000\<rparr>" 5
      "map char_of [0, 0, 0 :: nat]"]
  have hyp: "mounted (fst (init None))" "nextStartTimeRef (fst (init None)) = 0"
    "sourceCount (fst (init None)) = 0" "sourcesRef (fst (init None)) = []"
    "status (fst (init None)) = Connecting"
    "inlineData silent_chunk = Some ''AAAAAAAA''" "''AAAAAAAA'' \<noteq> []"
    "inlineData \<lparr>inlineData = Some ''!!!!'', text_part = None\<rparr> = Some ''!!!!''"
    "inlineData \<lparr>inlineData = Some ''AAAA'', text_part = None\<rparr> = Some ''AAAA''"
    by (simp_all add: init_def silent_chunk_def)
  have t: "atob ''!!!!'' = Inl InvalidCharacterError"
    by (simp add: atob_def strip_padding_def ascii_whitespace_def b64_index_def)
  from bad odd_bytes hyp t decodeAudio_bad_text decodeAudio_odd_bytes atob_4A
    decodeAudio_three_samples duration_three
  show ?thesis
    by (simp del: step.simps run.simps)
qed

subsection \<open>Teardown\<close>

lemma SourceStop_in_map: "SourceStop src \<in> set (map SourceStop xs) \<longleftrightarrow> src \<in> set xs"
  by auto

lemma Cleanup_stops: "SourceStop src \<in> set (snd (step Cleanup s)) \<longleftrightarrow> src \<in> set (sourcesRef s)"
  by (auto simp: close_call_def split: option.splits)

lemma step_keeps_source:
  "src \<in> set (sourcesRef s) \<Longrightarrow> e \<noteq> SourceEnded src \<Longrightarrow>
     src \<in> set (sourcesRef (fst (step e s)))"
proof (cases e)
  case (OnMessage msg now)
  assume "src \<in> set (sourcesRef s)"
  with OnMessage show ?thesis
    by (auto simp: playAudio_def Let_def split: option.splits sum.splits)
qed (auto simp: Let_def)

lemma run_keeps_source:
  "src \<in> set (sourcesRef s) \<Longrightarrow> SourceEnded src \<notin> set es \<Longrightarrow>
     src \<in> set (sourcesRef (fst (run es s)))"
proof (induction es arbitrary: s)
  case Nil
  then show ?case by simp
next
  case (Cons e es)
  from Cons.prems have ne: "e \<noteq> SourceEnded src" "SourceEnded src \<notin> set es"
    by auto
  have "src \<in> set (sourcesRef (fst (step e s)))"
    using Cons.prems(1) ne(1) by (rule step_keeps_source)
  then have "src \<in> set (sourcesRef (fst (run es (fst (step e s)))))"
    using ne(2) by (rule Cons.IH)
  then show ?case by (simp add: run_Cons_fst del: run.simps)
qed

text \<open>
  C8, as amended. The cleanup stops exactly the handles in the active set and leaves
  the set and the cursor as they are. A handle leaves the set only when its \<open>ended\<close>
  event fires: no other event removes it, so it is still in the set after every run
  without that event. The cursor is never reset: no run makes it smaller, and a run
  that schedules no playback leaves it unchanged.
\<close>

theorem cleanup_stops_sources_only:
  "(SourceStop src \<in> set (snd (step Cleanup s)) \<longleftrightarrow> src \<in> set (sourcesRef s)) \<and>
   sourcesRef (fst (step Cleanup s)) = sourcesRef s \<and>
   nextStartTimeRef (fst (step Cleanup s)) = nextStartTimeRef s \<and>
   sourcesRef (fst (step (SourceEnded src) s)) = removeAll src (sourcesRef s) \<and>
   (src \<in> set (sourcesRef s) \<and> src \<notin> set (sourcesRef (fst (step e s))) \<longrightarrow>
      e = SourceEnded src) \<and>
   (src \<in> set (sourcesRef s) \<and> SourceEnded src \<notin> set evs \<longrightarrow>
      src \<in> set (sourcesRef (fst (run evs s)))) \<and>
   nextStartTimeRef s \<le> nextStartTimeRef (fst (run evs s)) \<and>
   (scheduled (snd (run evs s)) = [] \<longrightarrow>
      nextStartTimeRef (fst (run evs s)) = nextStartTimeRef s)"
  using Cleanup_stops[of src s] step_keeps_source[of src s e] run_keeps_source[of src s evs]
    run_cursor_mono[of s evs] run_cursor_unchanged[of evs s]
  by (auto simp del: run.simps step.simps) (simp_all)

theorem cleanup_stops_sources_only_witness:
  "sourcesRef (fst (run [OnMessage silent_chunk 5] (fst (init None)))) = [0] \<and>
   0 \<in> set (sourcesRef (fst (run [Cleanup, OnClose, OnError, OnOpen]
      (fst (run [OnMessage silent_chunk 5] (fst (init None))))))) \<and>
   nextStartTimeRef (fst (run [OnMessage silent_chunk 5] (fst (init None)))) = 5 + 1 / 8000 \<and>
   nextStartTimeRef (fst (run [Cleanup, OnClose, OnError, OnOpen]
      (fst (run [OnMessage silent_chunk 5] (fst (init None)))))) = 5 + 1 / 8000 \<and>
   sourcesRef (fst (step (SourceEnded 0)
      (fst (run [OnMessage silent_chunk 5] (fst (init None)))))) = []"
  using cleanup_stops_sources_only[of 0 "fst (run [OnMessage silent_chunk 5] (fst (init None)))"
      Cleanup "[Cleanup, OnClose, OnError, OnOpen]"]
  by (simp add: init_def silent_chunk_def decodeAudio_three_samples playAudio_def Let_def
      duration_three close_call_def close_context_def)

theorem cleanup_keeps_set_and_cursor_counterexample:
  "sourcesRef (fst (run [GetUserMediaResolved, OnOpen, OnMessage silent_chunk 5, Cleanup]
      (fst (init None)))) = [0] \<and>
   nextStartTimeRef (fst (run [GetUserMediaResolved, OnOpen, OnMessage silent_chunk 5]
      (fst (init None)))) = 5 + 1 / 8000 \<and>
   nextStartTimeRef (fst (run [GetUserMediaResolved, OnOpen, OnMessage silent_chunk 5, Cleanup]
      (fst (init None)))) = 5 + 1 / 8000 \<and>
   snd (step Cleanup (fst (run [GetUserMediaResolved, OnOpen, OnMessage silent_chunk 5]
      (fst (init None))))) = [InputContextClose, OutputContextClose, SourceStop 0]"
  by (simp add: init_def silent_chunk_def decodeAudio_three_samples playAudio_def Let_def
      duration_three close_call_def close_context_def)










subsection \<open>Status\<close>










subsection \<open>The system instruction\<close>

text \<open>
  C10. Without a context, or with the empty one, the instruction holds the fixed
  sentence in place of the context; a non-empty context stands there as it is. The
  instruction built from the context of the component is the one sent when the
  transport is opened.
\<close>

theorem instruction_embeds_context:
  "instruction None =
     ''You are VOID, the digital abyss that stares back. The user is screaming into you. Be calm, infinite, and slightly cryptic but helpful.''
     @ indent @ indent @ ''CONTEXT OF CURRENT SESSION:'' @ indent
     @ ''The user is drifting in the void with no specific active note.''
     @ indent @ indent
     @ ''Use this context to answer questions or generate ideas if asked.'' \<and>
   instruction (Some []) = instruction None \<and>
   (c \<noteq> [] \<longrightarrow>
      instruction (Some c) =
        ''You are VOID, the digital abyss that stares back. The user is screaming into you. Be calm, infinite, and slightly cryptic but helpful.''
        @ indent @ indent @ ''CONTEXT OF CURRENT SESSION:'' @ indent
        @ c
        @ indent @ indent
        @ ''Use this context to answer questions or generate ideas if asked.'') \<and>
   snd (run [GetUserMediaResolved] (fst (init ctx)))
     = [LiveConnect \<lparr>model = ''gemini-2.5-flash-native-audio-preview-09-2025'',
                     voiceName = ''Zephyr'', systemInstruction = instruction ctx\<rparr>]"
  by (simp add: instruction_def init_def)

theorem instruction_embeds_context_witness:
  "instruction (Some ''Note X'') =
     ''You are VOID, the digital abyss that stares back. The user is screaming into you. Be calm, infinite, and slightly cryptic but helpful.''
     @ indent @ indent @ ''CONTEXT OF CURRENT SESSION:'' @ indent
     @ ''Note X''
     @ indent @ indent
     @ ''Use this context to answer questions or generate ideas if asked.'' \<and>
   length indent = 17"
proof -
  have ne: "''Note X'' \<noteq> []" by simp
  from instruction_embeds_context[of "''Note X''" None] ne
  have "instruction (Some ''Note X'') =
     ''You are VOID, the digital abyss that stares back. The user is screaming into you. Be calm, infinite, and slightly cryptic but helpful.''
     @ indent @ indent @ ''CONTEXT OF CURRENT SESSION:'' @ indent
     @ ''Note X''
     @ indent @ indent
     @ ''Use this context to answer questions or generate ideas if asked.''"
    by blast
  moreover have "length indent = 17"
    by (simp add: indent_def)
  ultimately show ?thesis by blast
qed

subsection \<open>Capture after teardown\<close>

text \<open>
  C4. The handler \<open>onaudioprocess\<close> does not look at \<open>mounted\<close>: a capture block that is
  delivered after the cleanup is still encoded and sent.
\<close>

theorem audioprocess_after_cleanup_sends:
  "\<not> mounted (fst (run [GetUserMediaResolved, OnOpen, Cleanup] (fst (init None)))) \<and>
   snd (step (AudioProcess [Num 0]) (fst (run [GetUserMediaResolved, OnOpen, Cleanup] (fst (init None)))))
     = [SendRealtimeInput ''audio/pcm;rate=16000'' ''AAA='']"
  by (simp add: init_def btoa_zero)

end
